theory Spec2Isabelle
  imports Main "HOL-Library.Sublist"
begin

section \<open>cmd/minimal: a web server with a graceful shutdown\<close>

text \<open>
  A shallow embedding of \<^verbatim>\<open>cmd/minimal/main.go\<close>. Go strings are byte
  sequences and are modelled as \<^typ>\<open>string\<close> (a list of 8-bit characters); a value
  of Go's \<^verbatim>\<open>error\<close> interface is an \<^verbatim>\<open>error option\<close>, \<^term>\<open>None\<close> being
  \<^verbatim>\<open>nil\<close>; a \<^verbatim>\<open>time.Duration\<close> is an integer count of nanoseconds.
\<close>

subsection \<open>Constants\<close>

type_synonym duration = int

definition Second :: duration where
  "Second = 1000000000"

definition contentTypeTextPlain :: string where
  "contentTypeTextPlain = ''text/plain; charset=utf-8''"

definition StatusOK :: nat where
  "StatusOK = 200"

definition httpReadTimeout :: duration where
  "httpReadTimeout = 10 * Second"

definition httpWriteTimeout :: duration where
  "httpWriteTimeout = 10 * Second"

definition httpMaxHeaderBytes :: nat where
  "httpMaxHeaderBytes = 2 ^ 20"

definition defaultHostPort :: string where
  "defaultHostPort = '':4000''"

definition envVarAddress :: string where
  "envVarAddress = ''ADDRESS''"

definition gracePeriod :: duration where
  "gracePeriod = 29 * Second"

definition errorExitCode :: nat where
  "errorExitCode = 1"

subsection \<open>Errors\<close>

text \<open>
  The errors the program tells apart: the sentinel \<^verbatim>\<open>http.ErrServerClosed\<close>, any
  other error (identified by its text), and an error that wraps another one
  (\<^verbatim>\<open>fmt.Errorf("...%w", err)\<close>). \<^verbatim>\<open>errors.Is\<close> walks the chain of wrapped
  errors and compares each link with the target; a nil error matches no target
  that is not nil. (Error types with an \<^verbatim>\<open>Is\<close> method of their own, or that wrap
  several errors, do not occur in this program.)
\<close>

datatype error = ErrServerClosed | ErrOther string | ErrWrap string error

fun chain_has :: "error \<Rightarrow> error \<Rightarrow> bool" where
  "chain_has ErrServerClosed t = (t = ErrServerClosed)"
| "chain_has (ErrOther m) t = (t = ErrOther m)"
| "chain_has (ErrWrap m e) t = (t = ErrWrap m e \<or> chain_has e t)"

fun errors_Is :: "error option \<Rightarrow> error \<Rightarrow> bool" where
  "errors_Is None t = False"
| "errors_Is (Some e) t = chain_has e t"

subsection \<open>The environment and the listen address\<close>

text \<open>
  \<^verbatim>\<open>EnvGetter\<close> is \<^verbatim>\<open>func(key string) string\<close>. \<^verbatim>\<open>os.Getenv\<close> is the getter of
  a process environment: it returns the empty string for a variable that is not set.
\<close>

type_synonym EnvGetter = "string \<Rightarrow> string"

definition os_Getenv :: "(string \<rightharpoonup> string) \<Rightarrow> EnvGetter" where
  "os_Getenv env key = (case env key of None \<Rightarrow> [] | Some v \<Rightarrow> v)"

text \<open>
  \<^verbatim>\<open>strings.TrimSpace\<close> (standard library) removes the leading and the trailing
  white space of a string, white space being the runes with Unicode's White\_Space
  property, decoded as UTF-8. These are U+0009 to U+000D, U+0020, U+0085, U+00A0,
  U+1680, U+2000 to U+200A, U+2028, U+2029, U+202F, U+205F and U+3000; the table
  holds their UTF-8 encodings. Go's decoder accepts the shortest encoding of a code
  point only and decodes every malformed byte as U+FFFD (width one), which is not
  white space, so a string starts (ends) with a white-space rune exactly when it
  starts (ends) with an entry of the table.
\<close>

definition white_space_utf8 :: "string list" where
  "white_space_utf8 =
    [[CHR 0x09], [CHR 0x0A], [CHR 0x0B], [CHR 0x0C], [CHR 0x0D], [CHR 0x20],
     [CHR 0xC2, CHR 0x85], [CHR 0xC2, CHR 0xA0],
     [CHR 0xE1, CHR 0x9A, CHR 0x80],
     [CHR 0xE2, CHR 0x80, CHR 0x80], [CHR 0xE2, CHR 0x80, CHR 0x81],
     [CHR 0xE2, CHR 0x80, CHR 0x82], [CHR 0xE2, CHR 0x80, CHR 0x83],
     [CHR 0xE2, CHR 0x80, CHR 0x84], [CHR 0xE2, CHR 0x80, CHR 0x85],
     [CHR 0xE2, CHR 0x80, CHR 0x86], [CHR 0xE2, CHR 0x80, CHR 0x87],
     [CHR 0xE2, CHR 0x80, CHR 0x88], [CHR 0xE2, CHR 0x80, CHR 0x89],
     [CHR 0xE2, CHR 0x80, CHR 0x8A],
     [CHR 0xE2, CHR 0x80, CHR 0xA8], [CHR 0xE2, CHR 0x80, CHR 0xA9],
     [CHR 0xE2, CHR 0x80, CHR 0xAF],
     [CHR 0xE2, CHR 0x81, CHR 0x9F],
     [CHR 0xE3, CHR 0x80, CHR 0x80]]"

definition leading_space :: "string \<Rightarrow> string option" where
  "leading_space s = find (\<lambda>w. prefix w s) white_space_utf8"

definition trailing_space :: "string \<Rightarrow> string option" where
  "trailing_space s = find (\<lambda>w. suffix w s) white_space_utf8"

function TrimLeftSpace :: "string \<Rightarrow> string" where
  "TrimLeftSpace s =
     (case leading_space s of
        None \<Rightarrow> s
      | Some w \<Rightarrow> TrimLeftSpace (drop (length w) s))"
  by pat_completeness auto
termination
proof (relation "measure length")
  show "wf (measure length)" by simp
next
  fix s w :: string
  assume "leading_space s = Some w"
  then have "w \<in> set white_space_utf8" and "prefix w s"
    by (auto simp: leading_space_def find_Some_iff)
  then have "w \<noteq> []" and "length w \<le> length s"
    by (auto simp: white_space_utf8_def prefix_length_le)
  then show "(drop (length w) s, s) \<in> measure length"
    by (cases w) auto
qed

function TrimRightSpace :: "string \<Rightarrow> string" where
  "TrimRightSpace s =
     (case trailing_space s of
        None \<Rightarrow> s
      | Some w \<Rightarrow> TrimRightSpace (take (length s - length w) s))"
  by pat_completeness auto
termination
proof (relation "measure length")
  show "wf (measure length)" by simp
next
  fix s w :: string
  assume "trailing_space s = Some w"
  then have "w \<in> set white_space_utf8" and "suffix w s"
    by (auto simp: trailing_space_def find_Some_iff)
  then have "w \<noteq> []" and "length w \<le> length s"
    by (auto simp: white_space_utf8_def suffix_length_le)
  then show "(take (length s - length w) s, s) \<in> measure length"
    by (cases w) auto
qed

declare TrimLeftSpace.simps [simp del] TrimRightSpace.simps [simp del]

definition TrimSpace :: "string \<Rightarrow> string" where
  "TrimSpace s = TrimRightSpace (TrimLeftSpace s)"

text \<open>Lines 85 to 88 of \<^verbatim>\<open>run\<close>: the address the server listens on.\<close>

definition hostport :: "EnvGetter \<Rightarrow> string" where
  "hostport getenv =
     (let hp = getenv envVarAddress
      in if TrimSpace hp = [] then defaultHostPort else hp)"

text \<open>
  The specification's words, for comparison with the code: a value "consists only of
  whitespace" when it is a sequence of white-space characters, that is a
  concatenation of entries of the table (the empty value among them).
\<close>

definition spec_only_whitespace :: "string \<Rightarrow> bool" where
  "spec_only_whitespace s \<longleftrightarrow> (\<exists>ws. set ws \<subseteq> set white_space_utf8 \<and> s = concat ws)"

subsection \<open>The hello handler\<close>

text \<open>
  A request, as far as a handler can read it. \<^verbatim>\<open>PathValue\<close> returns the value the
  router bound to a wildcard of the matched pattern, and the empty string when the
  pattern has no such wildcard.
\<close>

record request =
  req_method :: string
  req_path :: string
  req_query :: string
  req_header :: "string \<rightharpoonup> string list"
  req_body :: string
  req_remote_addr :: string
  req_path_values :: "string \<rightharpoonup> string"

definition PathValue :: "request \<Rightarrow> string \<Rightarrow> string" where
  "PathValue req name = (case req_path_values req name of None \<Rightarrow> [] | Some v \<Rightarrow> v)"

text \<open>
  The response writer, after \<^verbatim>\<open>httptest.ResponseRecorder\<close> (the writer the tests
  hand to the handler): the header map under construction, and what was sent: the
  status code, the headers as they were when the status line was written, the body.
  \<^verbatim>\<open>WriteHeader\<close> has no effect once the header is written; \<^verbatim>\<open>Write\<close> writes the
  header with status 200 first if nothing did. (\<^verbatim>\<open>WriteHeader\<close> panics on a code
  outside 100 to 999; the handler passes the constant 200.) \<^verbatim>\<open>Header().Set\<close>
  replaces the values of a key by the one given; the key \<^verbatim>\<open>Content-Type\<close> is in
  canonical form already.
\<close>

record response_writer =
  rw_header :: "string \<rightharpoonup> string list"
  rw_wrote_header :: bool
  rw_code :: nat
  rw_sent_header :: "string \<rightharpoonup> string list"
  rw_body :: string

definition NewRecorder :: response_writer where
  "NewRecorder =
     \<lparr>rw_header = Map.empty, rw_wrote_header = False, rw_code = 200,
      rw_sent_header = Map.empty, rw_body = []\<rparr>"

definition Header_Set :: "string \<Rightarrow> string \<Rightarrow> response_writer \<Rightarrow> response_writer" where
  "Header_Set key v w = w\<lparr>rw_header := (rw_header w)(key \<mapsto> [v])\<rparr>"

definition WriteHeader :: "nat \<Rightarrow> response_writer \<Rightarrow> response_writer" where
  "WriteHeader code w =
     (if rw_wrote_header w then w
      else w\<lparr>rw_wrote_header := True, rw_code := code, rw_sent_header := rw_header w\<rparr>)"

definition Write :: "string \<Rightarrow> response_writer \<Rightarrow> response_writer" where
  "Write bytes w =
     (let w' = (if rw_wrote_header w then w else WriteHeader 200 w)
      in w'\<lparr>rw_body := rw_body w' @ bytes\<rparr>)"

definition Header_Get :: "(string \<rightharpoonup> string list) \<Rightarrow> string \<Rightarrow> string" where
  "Header_Get h key = (case h key of None \<Rightarrow> [] | Some [] \<Rightarrow> [] | Some (v # _) \<Rightarrow> v)"

text \<open>
  \<^verbatim>\<open>fmt.Fprintf(w, "Hello %s\n", name)\<close>: the verb \<^verbatim>\<open>%s\<close> copies the bytes of a
  string operand as they are.
\<close>

definition Fprintf_Hello :: "string \<Rightarrow> response_writer \<Rightarrow> response_writer" where
  "Fprintf_Hello name w = Write (''Hello '' @ name @ [CHR 0x0A]) w"

definition handleHello :: "response_writer \<Rightarrow> request \<Rightarrow> response_writer" where
  "handleHello w req =
     (let name = PathValue req ''name'';
          w1 = Header_Set ''Content-Type'' contentTypeTextPlain w;
          w2 = WriteHeader StatusOK w1
      in Fprintf_Hello name w2)"

text \<open>What a client reads of a response: status, headers, body.\<close>

definition Result :: "response_writer \<Rightarrow> nat \<times> (string \<rightharpoonup> string list) \<times> string" where
  "Result w = (rw_code w, rw_sent_header w, rw_body w)"

subsection \<open>The shutdown coordinator and the lifecycle, as a transition system\<close>

text \<open>
  What the two tasks do to each other and to the listener is recorded as a trace of
  events: the deadline \<^verbatim>\<open>context.WithTimeout\<close> constructs, the two calls on the
  \<^verbatim>\<open>httpServer\<close> interface (\<^verbatim>\<open>Shutdown\<close> with the deadline it was given and the
  error it returned), the operations on \<^verbatim>\<open>errChan\<close>, and the return of
  \<^verbatim>\<open>ListenAndServe\<close>.
\<close>

datatype event =
    EvWithTimeout int
  | EvSetKeepAlivesEnabled bool
  | EvShutdown int "error option"
  | EvSend error
  | EvClose
  | EvServe "error option"
  | EvRecv "error option"

text \<open>
  \<^verbatim>\<open>shutdown(ctx, httpServer, errChan, gracePeriod)\<close> does nothing but return a
  closure. The system below has one context, one listener and one channel, so the
  closure is determined by the grace period it captured.
\<close>

record closure =
  cl_gracePeriod :: duration

definition shutdown :: "duration \<Rightarrow> closure" where
  "shutdown gp = \<lparr>cl_gracePeriod = gp\<rparr>"

text \<open>
  The program points of the closure (lines 38 to 49). \<open>C_NotCalled\<close> is a closure
  that was built and never called. The later points carry the closure's local
  variables: the deadline of \<^verbatim>\<open>shutdownCtx\<close> and the error \<^verbatim>\<open>Shutdown\<close> returned.
  \<open>C_Panic\<close> is the run-time panic of a send on, or a close of, a closed channel.
\<close>

datatype coord_pc =
    C_NotCalled
  | C_WaitDone
  | C_WithTimeout
  | C_SetKeepAlives int
  | C_Shutdown int
  | C_Send int error
  | C_Close int "error option"
  | C_Done int "error option"
  | C_Panic

text \<open>
  The program points of \<^verbatim>\<open>run\<close> from line 107 on: blocked in
  \<^verbatim>\<open>ListenAndServe\<close>, blocked reading \<^verbatim>\<open>errChan\<close> (line 111), returned.
\<close>

datatype run_pc = R_Serve | R_Recv | R_Returned "error option"

record http_Server =
  Addr :: string
  ReadTimeout :: duration
  WriteTimeout :: duration
  MaxHeaderBytes :: nat

record state =
  ctx_done :: bool
  now :: int
  srv :: http_Server
  keepAlives :: bool
  chan_closed :: bool
  cl :: closure
  coord :: coord_pc
  main :: run_pc
  trace :: "event list"

text \<open>
  One step of the closure. It waits at line 38 until the context is done; the send
  of line 47 is on an unbuffered channel, so it completes only together with the
  receive of line 111, after which \<^verbatim>\<open>run\<close> returns the value (its deferred
  \<^verbatim>\<open>cancel\<close> ends the context). The call of \<^verbatim>\<open>Shutdown\<close> is a step of its own,
  \<open>shutdown_returns\<close>, since its result is the listener's to choose. The deferred
  \<^verbatim>\<open>cancel\<close> of line 41 only releases the timer of \<^verbatim>\<open>shutdownCtx\<close> when the
  closure returns; nothing in the program observes it.
\<close>

definition coord_step :: "state \<Rightarrow> state option" where
  "coord_step s =
     (case coord s of
        C_NotCalled \<Rightarrow> None
      | C_WaitDone \<Rightarrow> if ctx_done s then Some (s\<lparr>coord := C_WithTimeout\<rparr>) else None
      | C_WithTimeout \<Rightarrow>
          Some (s\<lparr>coord := C_SetKeepAlives (now s + cl_gracePeriod (cl s)),
                  trace := trace s @ [EvWithTimeout (now s + cl_gracePeriod (cl s))]\<rparr>)
      | C_SetKeepAlives d \<Rightarrow>
          Some (s\<lparr>keepAlives := False, coord := C_Shutdown d,
                  trace := trace s @ [EvSetKeepAlivesEnabled False]\<rparr>)
      | C_Shutdown d \<Rightarrow> None
      | C_Send d e \<Rightarrow>
          if chan_closed s then Some (s\<lparr>coord := C_Panic\<rparr>)
          else if main s = R_Recv
          then Some (s\<lparr>ctx_done := True, coord := C_Close d (Some e),
                       main := R_Returned (Some e),
                       trace := trace s @ [EvSend e, EvRecv (Some e)]\<rparr>)
          else None
      | C_Close d r \<Rightarrow>
          if chan_closed s then Some (s\<lparr>coord := C_Panic\<rparr>)
          else Some (s\<lparr>chan_closed := True, coord := C_Done d r,
                       trace := trace s @ [EvClose]\<rparr>)
      | C_Done d r \<Rightarrow> None
      | C_Panic \<Rightarrow> None)"

definition shutdown_returns :: "error option \<Rightarrow> state \<Rightarrow> state option" where
  "shutdown_returns r s =
     (case coord s of
        C_Shutdown d \<Rightarrow>
          Some (s\<lparr>coord := (case r of None \<Rightarrow> C_Close d None | Some e \<Rightarrow> C_Send d e),
                  trace := trace s @ [EvShutdown d r]\<rparr>)
      | _ \<Rightarrow> None)"

text \<open>
  Lines 107 to 113 of \<^verbatim>\<open>run\<close>. \<^verbatim>\<open>ListenAndServe\<close> returns what the listener
  chooses; \<^verbatim>\<open>run\<close> returns it at once unless \<^verbatim>\<open>errors.Is\<close> finds the sentinel in
  it, and otherwise goes on to read the channel. A receive on a channel that is
  closed yields nil; on an open channel it waits for a sender.
\<close>

definition serve_returns :: "error option \<Rightarrow> state \<Rightarrow> state option" where
  "serve_returns err s =
     (case main s of
        R_Serve \<Rightarrow>
          if \<not> errors_Is err ErrServerClosed
          then Some (s\<lparr>ctx_done := True, main := R_Returned err,
                       trace := trace s @ [EvServe err]\<rparr>)
          else Some (s\<lparr>main := R_Recv, trace := trace s @ [EvServe err]\<rparr>)
      | _ \<Rightarrow> None)"

definition main_step :: "state \<Rightarrow> state option" where
  "main_step s =
     (case main s of
        R_Recv \<Rightarrow>
          if chan_closed s
          then Some (s\<lparr>ctx_done := True, main := R_Returned None,
                       trace := trace s @ [EvRecv None]\<rparr>)
          else None
      | _ \<Rightarrow> None)"

text \<open>
  A schedule is a list of actions: the context is cancelled (a signal, or the
  caller), time passes, a task takes its next step, a call into the listener
  returns. An action that is not enabled (a blocked task) has no successor state.
  Every interleaving of the tasks, with every choice of the listener's results, is
  a schedule.
\<close>

datatype action =
    Cancel
  | Tick nat
  | Coord
  | ShutdownReturns "error option"
  | ServeReturns "error option"
  | Main

fun exec :: "action \<Rightarrow> state \<Rightarrow> state option" where
  "exec Cancel s = Some (s\<lparr>ctx_done := True\<rparr>)"
| "exec (Tick n) s = Some (s\<lparr>now := now s + int n\<rparr>)"
| "exec Coord s = coord_step s"
| "exec (ShutdownReturns r) s = shutdown_returns r s"
| "exec (ServeReturns err) s = serve_returns err s"
| "exec Main s = main_step s"

fun execs :: "action list \<Rightarrow> state \<Rightarrow> state option" where
  "execs [] s = Some s"
| "execs (a # as) s = (case exec a s of None \<Rightarrow> None | Some s' \<Rightarrow> execs as s')"

text \<open>
  \<^verbatim>\<open>run\<close> after line 104, at time \<open>t0\<close>. Line 104 is
  \<^verbatim>\<open>go shutdown(ctx, srv, errChan, 30*time.Second)\<close>: the function the new goroutine
  runs is \<^verbatim>\<open>shutdown\<close> itself, which builds the closure and returns it, and a
  \<^verbatim>\<open>go\<close> statement discards what its function returns. The closure is never called.
\<close>

definition run_init :: "int \<Rightarrow> EnvGetter \<Rightarrow> state" where
  "run_init t0 getenv =
     \<lparr>ctx_done = False, now = t0,
      srv = \<lparr>Addr = hostport getenv, ReadTimeout = httpReadTimeout,
             WriteTimeout = httpWriteTimeout, MaxHeaderBytes = httpMaxHeaderBytes\<rparr>,
      keepAlives = True, chan_closed = False,
      cl = shutdown (30 * Second), coord = C_NotCalled,
      main = R_Serve, trace = []\<rparr>"

text \<open>
  The composition of \<^verbatim>\<open>TestShutdown\<close>:
  \<^verbatim>\<open>go shutdown(ctx, m, errChan, time.Second)()\<close> calls the closure in the new
  goroutine, and the caller reads \<^verbatim>\<open>errChan\<close>.
\<close>

definition TestShutdown_init :: "int \<Rightarrow> state" where
  "TestShutdown_init t0 =
     \<lparr>ctx_done = False, now = t0,
      srv = \<lparr>Addr = [], ReadTimeout = 0, WriteTimeout = 0, MaxHeaderBytes = 0\<rparr>,
      keepAlives = True, chan_closed = False,
      cl = shutdown Second, coord = C_WaitDone,
      main = R_Recv, trace = []\<rparr>"

text \<open>A state in which the closure has just been called: nothing has happened yet.\<close>

definition coordinator_started :: "state \<Rightarrow> bool" where
  "coordinator_started s \<longleftrightarrow> coord s = C_WaitDone \<and> trace s = [] \<and> \<not> chan_closed s"

text \<open>A state in which \<^verbatim>\<open>run\<close> has just called \<^verbatim>\<open>ListenAndServe\<close>.\<close>

definition run_started :: "state \<Rightarrow> bool" where
  "run_started s \<longleftrightarrow> main s = R_Serve \<and> trace s = []"

subsection \<open>Reading a trace\<close>

fun is_coord_event :: "event \<Rightarrow> bool" where
  "is_coord_event (EvServe _) = False"
| "is_coord_event (EvRecv _) = False"
| "is_coord_event _ = True"

fun is_run_event :: "event \<Rightarrow> bool" where
  "is_run_event (EvServe _) = True"
| "is_run_event (EvRecv _) = True"
| "is_run_event _ = False"

fun is_listener_call :: "event \<Rightarrow> bool" where
  "is_listener_call (EvSetKeepAlivesEnabled _) = True"
| "is_listener_call (EvShutdown _ _) = True"
| "is_listener_call _ = False"

fun is_keepalive_off :: "event \<Rightarrow> bool" where
  "is_keepalive_off (EvSetKeepAlivesEnabled v) = (\<not> v)"
| "is_keepalive_off _ = False"

fun is_keepalive_call :: "event \<Rightarrow> bool" where
  "is_keepalive_call (EvSetKeepAlivesEnabled _) = True"
| "is_keepalive_call _ = False"

fun is_shutdown_call :: "event \<Rightarrow> bool" where
  "is_shutdown_call (EvShutdown _ _) = True"
| "is_shutdown_call _ = False"

fun is_send :: "event \<Rightarrow> bool" where
  "is_send (EvSend _) = True"
| "is_send _ = False"

fun is_recv :: "event \<Rightarrow> bool" where
  "is_recv (EvRecv _) = True"
| "is_recv _ = False"

fun is_chan_write :: "event \<Rightarrow> bool" where
  "is_chan_write (EvSend _) = True"
| "is_chan_write EvClose = True"
| "is_chan_write _ = False"

text \<open>
  \<open>precedes p q xs\<close>: no event \<open>q\<close> stands in \<open>xs\<close> before the first event \<open>p\<close>, so
  every \<open>q\<close> has a \<open>p\<close> earlier in the trace. \<open>none_after p q xs\<close>: no event \<open>q\<close>
  stands after an event \<open>p\<close>.
\<close>

fun precedes :: "('a \<Rightarrow> bool) \<Rightarrow> ('a \<Rightarrow> bool) \<Rightarrow> 'a list \<Rightarrow> bool" where
  "precedes p q [] = True"
| "precedes p q (x # xs) = (if p x then True else (\<not> q x \<and> precedes p q xs))"

fun none_after :: "('a \<Rightarrow> bool) \<Rightarrow> ('a \<Rightarrow> bool) \<Rightarrow> 'a list \<Rightarrow> bool" where
  "none_after p q [] = True"
| "none_after p q (x # xs) = (if p x then list_all (\<lambda>y. \<not> q y) xs else none_after p q xs)"

subsection \<open>Invariants\<close>

text \<open>
  The events of one complete execution of the closure, in the order of lines 40 to
  49, for the deadline \<open>d\<close> and the result \<open>r\<close> of \<^verbatim>\<open>Shutdown\<close>.
\<close>

definition closure_script :: "int \<Rightarrow> error option \<Rightarrow> event list" where
  "closure_script d r =
     [EvWithTimeout d, EvSetKeepAlivesEnabled False, EvShutdown d r]
       @ (case r of None \<Rightarrow> [] | Some e \<Rightarrow> [EvSend e]) @ [EvClose]"

text \<open>What the closure has logged by the time it stands at a program point.\<close>

fun logged :: "coord_pc \<Rightarrow> event list" where
  "logged C_NotCalled = []"
| "logged C_WaitDone = []"
| "logged C_WithTimeout = []"
| "logged (C_SetKeepAlives d) = [EvWithTimeout d]"
| "logged (C_Shutdown d) = [EvWithTimeout d, EvSetKeepAlivesEnabled False]"
| "logged (C_Send d e) =
     [EvWithTimeout d, EvSetKeepAlivesEnabled False, EvShutdown d (Some e)]"
| "logged (C_Close d r) =
     [EvWithTimeout d, EvSetKeepAlivesEnabled False, EvShutdown d r]
       @ (case r of None \<Rightarrow> [] | Some e \<Rightarrow> [EvSend e])"
| "logged (C_Done d r) =
     [EvWithTimeout d, EvSetKeepAlivesEnabled False, EvShutdown d r]
       @ (case r of None \<Rightarrow> [] | Some e \<Rightarrow> [EvSend e]) @ [EvClose]"
| "logged C_Panic = []"

fun is_done :: "coord_pc \<Rightarrow> bool" where
  "is_done (C_Done _ _) = True"
| "is_done _ = False"

definition coord_inv :: "state \<Rightarrow> bool" where
  "coord_inv s \<longleftrightarrow>
     filter is_coord_event (trace s) = logged (coord s)
     \<and> chan_closed s = is_done (coord s)
     \<and> coord s \<noteq> C_Panic
     \<and> coord s \<noteq> C_NotCalled"

text \<open>
  What \<^verbatim>\<open>run\<close> has logged: nothing while it serves; the sentinel while it reads the
  channel; once returned, either the error of \<^verbatim>\<open>ListenAndServe\<close> that it returned,
  or the sentinel and the one value read from the channel.
\<close>

fun run_inv_at :: "run_pc \<Rightarrow> event list \<Rightarrow> bool" where
  "run_inv_at R_Serve xs = (xs = [])"
| "run_inv_at R_Recv xs = (\<exists>err. xs = [EvServe err] \<and> errors_Is err ErrServerClosed)"
| "run_inv_at (R_Returned v) xs =
     ((xs = [EvServe v] \<and> \<not> errors_Is v ErrServerClosed)
      \<or> (\<exists>err. xs = [EvServe err, EvRecv v] \<and> errors_Is err ErrServerClosed))"

definition run_inv :: "state \<Rightarrow> bool" where
  "run_inv s \<longleftrightarrow> run_inv_at (main s) (filter is_run_event (trace s))"

text \<open>The closure was never called: it does nothing, and the channel stays as it is.\<close>

definition not_called_inv :: "state \<Rightarrow> bool" where
  "not_called_inv s \<longleftrightarrow>
     coord s = C_NotCalled \<and> \<not> chan_closed s \<and> keepAlives s
     \<and> filter is_coord_event (trace s) = []
     \<and> filter is_recv (trace s) = []"



section \<open>The hello handler\<close>

text \<open>
  Claim C6. For a request the router matched against \<^verbatim>\<open>GET /hello/{name}\<close>,
  binding the segment to \<open>name\<close>, the handler answers on a fresh writer with
  status 200, the one header \<^verbatim>\<open>Content-Type: text/plain; charset=utf-8\<close>, and the
  body \<^verbatim>\<open>Hello\<close>, a space, the bytes of \<open>name\<close> as they are, and a newline.
\<close>

theorem hello_response:
  assumes "req_path_values req ''name'' = Some name"
  shows "Result (handleHello NewRecorder req)
           = (200, [''Content-Type'' \<mapsto> [''text/plain; charset=utf-8'']],
              ''Hello '' @ name @ [CHR 0x0A])
       \<and> Header_Get (rw_sent_header (handleHello NewRecorder req)) ''Content-Type''
           = ''text/plain; charset=utf-8''"
  using assms
  by (simp add: handleHello_def Fprintf_Hello_def Write_def WriteHeader_def Header_Set_def
        NewRecorder_def PathValue_def Result_def Header_Get_def StatusOK_def
        contentTypeTextPlain_def Let_def)

theorem hello_response_witness:
  "Result (handleHello NewRecorder
      \<lparr>req_method = ''GET'', req_path = ''/hello/Ada'', req_query = [],
       req_header = Map.empty, req_body = [], req_remote_addr = ''127.0.0.1:50000'',
       req_path_values = [''name'' \<mapsto> ''Ada'']\<rparr>)
     = (200, [''Content-Type'' \<mapsto> [''text/plain; charset=utf-8'']],
        ''Hello Ada'' @ [CHR 0x0A])
   \<and> rw_body (handleHello NewRecorder
      \<lparr>req_method = ''GET'', req_path = ''/hello/%3Cb%3E&'', req_query = [],
       req_header = Map.empty, req_body = [], req_remote_addr = ''127.0.0.1:50000'',
       req_path_values = [''name'' \<mapsto> ''<b>&'']\<rparr>)
     = ''Hello <b>&'' @ [CHR 0x0A]"
  using hello_response [of "\<lparr>req_method = ''GET'', req_path = ''/hello/Ada'', req_query = [],
       req_header = Map.empty, req_body = [], req_remote_addr = ''127.0.0.1:50000'',
       req_path_values = [''name'' \<mapsto> ''Ada'']\<rparr>" "''Ada''"]
     hello_response [of "\<lparr>req_method = ''GET'', req_path = ''/hello/%3Cb%3E&'', req_query = [],
       req_header = Map.empty, req_body = [], req_remote_addr = ''127.0.0.1:50000'',
       req_path_values = [''name'' \<mapsto> ''<b>&'']\<rparr>" "''<b>&''"]
  by (simp add: Result_def)

text \<open>
  Claim C10. The handler reads nothing of a request but the path value
  \<^verbatim>\<open>name\<close>: two requests that agree on it get the same response, on any writer,
  whatever their methods, headers, bodies, queries and remote addresses.
\<close>

theorem hello_depends_on_name_only:
  assumes "PathValue r1 ''name'' = PathValue r2 ''name''"
  shows "handleHello w r1 = handleHello w r2
       \<and> Result (handleHello NewRecorder r1) = Result (handleHello NewRecorder r2)"
  using assms by (simp add: handleHello_def)

theorem hello_depends_on_name_only_witness:
  "PathValue \<lparr>req_method = ''GET'', req_path = ''/hello/Ada'', req_query = [],
       req_header = Map.empty, req_body = [], req_remote_addr = ''127.0.0.1:50000'',
       req_path_values = [''name'' \<mapsto> ''Ada'']\<rparr> ''name''
     = PathValue \<lparr>req_method = ''HEAD'', req_path = ''/hello/Ada'', req_query = ''x=1'',
       req_header = [''Accept'' \<mapsto> [''text/html'']], req_body = ''ignored'',
       req_remote_addr = ''10.0.0.7:41000'',
       req_path_values = [''name'' \<mapsto> ''Ada'']\<rparr> ''name''
   \<and> Result (handleHello NewRecorder
        \<lparr>req_method = ''GET'', req_path = ''/hello/Ada'', req_query = [],
         req_header = Map.empty, req_body = [], req_remote_addr = ''127.0.0.1:50000'',
         req_path_values = [''name'' \<mapsto> ''Ada'']\<rparr>)
     = Result (handleHello NewRecorder
        \<lparr>req_method = ''HEAD'', req_path = ''/hello/Ada'', req_query = ''x=1'',
         req_header = [''Accept'' \<mapsto> [''text/html'']], req_body = ''ignored'',
         req_remote_addr = ''10.0.0.7:41000'',
         req_path_values = [''name'' \<mapsto> ''Ada'']\<rparr>)"
proof -
  have e: "PathValue \<lparr>req_method = ''GET'', req_path = ''/hello/Ada'', req_query = [],
       req_header = Map.empty, req_body = [], req_remote_addr = ''127.0.0.1:50000'',
       req_path_values = [''name'' \<mapsto> ''Ada'']\<rparr> ''name''
     = PathValue \<lparr>req_method = ''HEAD'', req_path = ''/hello/Ada'', req_query = ''x=1'',
       req_header = [''Accept'' \<mapsto> [''text/html'']], req_body = ''ignored'',
       req_remote_addr = ''10.0.0.7:41000'',
       req_path_values = [''name'' \<mapsto> ''Ada'']\<rparr> ''name''"
    by (simp add: PathValue_def)
  from hello_depends_on_name_only [OF e, of NewRecorder] e show ?thesis by blast
qed

section \<open>The listen address\<close>

lemma leading_space_Some: "leading_space s = Some w \<Longrightarrow> w \<in> set white_space_utf8 \<and> prefix w s"
  by (auto simp: leading_space_def find_Some_iff)

lemma leading_space_None: "leading_space s = None \<Longrightarrow> w \<in> set white_space_utf8 \<Longrightarrow> \<not> prefix w s"
  by (auto simp: leading_space_def find_None_iff)

lemma trailing_space_Some: "trailing_space s = Some w \<Longrightarrow> w \<in> set white_space_utf8 \<and> suffix w s"
  by (auto simp: trailing_space_def find_Some_iff)

lemma white_space_width:
  "w \<in> set white_space_utf8 \<Longrightarrow>
     w \<noteq> [] \<and> length w = (if hd w = CHR 0xC2 then 2
                           else if hd w \<in> {CHR 0xE1, CHR 0xE2, CHR 0xE3} then 3 else 1)"
  by (auto simp: white_space_utf8_def)

lemma prefix_hd: "prefix w s \<Longrightarrow> w \<noteq> [] \<Longrightarrow> hd w = hd s"
  by (cases w) (auto simp: prefix_def)

lemma white_space_prefix_free:
  assumes "w \<in> set white_space_utf8" "w' \<in> set white_space_utf8" "prefix w s" "prefix w' s"
  shows "w = w'"
proof -
  from assms(1,2) have ne: "w \<noteq> []" "w' \<noteq> []"
    by (auto dest: white_space_width)
  with assms(3,4) have "hd w = hd s" "hd w' = hd s"
    by (simp_all add: prefix_hd)
  with assms(1,2) have "length w = length w'"
    using white_space_width [of w] white_space_width [of w'] by simp
  with assms(3,4) show ?thesis
    by (metis prefix_order.dual_order.eq_iff prefix_length_prefix order_refl)
qed

lemma leading_space_append:
  assumes "w \<in> set white_space_utf8"
  shows "leading_space (w @ u) = Some w"
proof (cases "leading_space (w @ u)")
  case None
  from leading_space_None [OF None assms] show ?thesis by simp
next
  case (Some w')
  then have "w' \<in> set white_space_utf8" "prefix w' (w @ u)"
    by (auto dest: leading_space_Some)
  with assms have "w = w'"
    by (auto intro: white_space_prefix_free [of w w' "w @ u"])
  with Some show ?thesis by simp
qed

lemma TrimLeftSpace_concat:
  "set ws \<subseteq> set white_space_utf8 \<Longrightarrow> TrimLeftSpace (concat ws @ t) = TrimLeftSpace t"
proof (induction ws)
  case Nil
  then show ?case by simp
next
  case (Cons w ws)
  then have w: "w \<in> set white_space_utf8" by simp
  have "TrimLeftSpace (w @ (concat ws @ t)) = TrimLeftSpace (concat ws @ t)"
    by (subst TrimLeftSpace.simps) (simp add: leading_space_append [OF w])
  with Cons show ?case by simp
qed

lemma TrimLeftSpace_decomp:
  "\<exists>ws. set ws \<subseteq> set white_space_utf8 \<and> s = concat ws @ TrimLeftSpace s"
proof (induction s rule: TrimLeftSpace.induct)
  case (1 s)
  show ?case
  proof (cases "leading_space s")
    case None
    then have "TrimLeftSpace s = s" by (subst TrimLeftSpace.simps) simp
    then have "set [] \<subseteq> set white_space_utf8 \<and> s = concat [] @ TrimLeftSpace s" by simp
    then show ?thesis by blast
  next
    case (Some w)
    then have w: "w \<in> set white_space_utf8" and p: "prefix w s"
      by (auto dest: leading_space_Some)
    from p have s: "s = w @ drop (length w) s"
      by (auto simp: prefix_def)
    from "1.IH" [OF Some] obtain ws where
      ws: "set ws \<subseteq> set white_space_utf8"
          "drop (length w) s = concat ws @ TrimLeftSpace (drop (length w) s)"
      by blast
    have t: "TrimLeftSpace s = TrimLeftSpace (drop (length w) s)"
      by (subst TrimLeftSpace.simps) (simp add: Some)
    have "s = concat (w # ws) @ TrimLeftSpace s"
      using s ws(2) t by (metis append.assoc concat.simps(2))
    with w ws(1) have "set (w # ws) \<subseteq> set white_space_utf8 \<and> s = concat (w # ws) @ TrimLeftSpace s"
      by simp
    then show ?thesis by blast
  qed
qed

lemma leading_space_TrimLeftSpace: "leading_space (TrimLeftSpace s) = None"
proof (induction s rule: TrimLeftSpace.induct)
  case (1 s)
  show ?case
  proof (cases "leading_space s")
    case None
    then have "TrimLeftSpace s = s" by (subst TrimLeftSpace.simps) simp
    with None show ?thesis by simp
  next
    case (Some w)
    have "TrimLeftSpace s = TrimLeftSpace (drop (length w) s)"
      by (subst TrimLeftSpace.simps) (simp add: Some)
    with "1.IH" [OF Some] show ?thesis by simp
  qed
qed

lemma TrimRightSpace_decomp:
  "\<exists>ws. set ws \<subseteq> set white_space_utf8 \<and> s = TrimRightSpace s @ concat ws"
proof (induction s rule: TrimRightSpace.induct)
  case (1 s)
  show ?case
  proof (cases "trailing_space s")
    case None
    then have "TrimRightSpace s = s" by (subst TrimRightSpace.simps) simp
    then have "set [] \<subseteq> set white_space_utf8 \<and> s = TrimRightSpace s @ concat []" by simp
    then show ?thesis by blast
  next
    case (Some w)
    then have w: "w \<in> set white_space_utf8" and p: "suffix w s"
      by (auto dest: trailing_space_Some)
    from p have s: "s = take (length s - length w) s @ w"
      by (auto simp: suffix_def)
    from "1.IH" [OF Some] obtain ws where
      ws: "set ws \<subseteq> set white_space_utf8"
          "take (length s - length w) s
             = TrimRightSpace (take (length s - length w) s) @ concat ws"
      by blast
    have t: "TrimRightSpace s = TrimRightSpace (take (length s - length w) s)"
      by (subst TrimRightSpace.simps) (simp add: Some)
    have "s = TrimRightSpace s @ concat (ws @ [w])"
      using s ws(2) t by (metis append.assoc concat_append concat.simps append_Nil2)
    with w ws(1) have "set (ws @ [w]) \<subseteq> set white_space_utf8 \<and> s = TrimRightSpace s @ concat (ws @ [w])"
      by simp
    then show ?thesis by blast
  qed
qed

lemma TrimLeftSpace_Nil: "TrimLeftSpace [] = []"
  by (subst TrimLeftSpace.simps) (simp add: leading_space_def white_space_utf8_def)

lemma TrimRightSpace_Nil: "TrimRightSpace [] = []"
  by (subst TrimRightSpace.simps) (simp add: trailing_space_def white_space_utf8_def)

lemma TrimSpace_empty_iff: "TrimSpace s = [] \<longleftrightarrow> spec_only_whitespace s"
proof
  assume "spec_only_whitespace s"
  then obtain ws where ws: "set ws \<subseteq> set white_space_utf8" "s = concat ws"
    by (auto simp: spec_only_whitespace_def)
  from TrimLeftSpace_concat [OF ws(1), of "[]"] ws(2) have "TrimLeftSpace s = []"
    by (simp add: TrimLeftSpace_Nil)
  then show "TrimSpace s = []"
    by (simp add: TrimSpace_def TrimRightSpace_Nil)
next
  assume e: "TrimSpace s = []"
  define t where "t = TrimLeftSpace s"
  from e have r: "TrimRightSpace t = []" by (simp add: TrimSpace_def t_def)
  from TrimRightSpace_decomp [of t] r obtain ws where
    ws: "set ws \<subseteq> set white_space_utf8" "t = concat ws"
    by auto
  have none: "leading_space t = None"
    by (simp add: t_def leading_space_TrimLeftSpace)
  have "t = []"
  proof (cases ws)
    case Nil
    with ws(2) show ?thesis by simp
  next
    case (Cons w ws')
    with ws have "w \<in> set white_space_utf8" "prefix w t" by auto
    with leading_space_None [OF none] show ?thesis by blast
  qed
  with TrimLeftSpace_decomp [of s] show "spec_only_whitespace s"
    by (auto simp: spec_only_whitespace_def t_def)
qed

text \<open>
  Claim C7. The address \<^verbatim>\<open>run\<close> listens on is the default \<^verbatim>\<open>:4000\<close> when the
  variable \<^verbatim>\<open>ADDRESS\<close> is absent or consists only of white space, and the value of
  the variable, unchanged, otherwise: for every getter, and for \<^verbatim>\<open>os.Getenv\<close> on
  every environment.
\<close>

theorem listen_address_resolution:
  "hostport getenv
     = (if spec_only_whitespace (getenv ''ADDRESS'') then '':4000'' else getenv ''ADDRESS'')
   \<and> hostport (os_Getenv env)
     = (case env ''ADDRESS'' of
          None \<Rightarrow> '':4000''
        | Some v \<Rightarrow> if spec_only_whitespace v then '':4000'' else v)"
proof -
  have nil: "spec_only_whitespace []"
    using TrimSpace_empty_iff [of "[]"]
    by (simp add: TrimSpace_def TrimLeftSpace_Nil TrimRightSpace_Nil)
  have a: "hostport g
     = (if spec_only_whitespace (g ''ADDRESS'') then '':4000'' else g ''ADDRESS'')" for g
    by (simp add: hostport_def Let_def TrimSpace_empty_iff envVarAddress_def defaultHostPort_def)
  show ?thesis
    unfolding a by (simp add: os_Getenv_def nil split: option.splits)
qed

lemmas trim_eval = TrimSpace_def TrimLeftSpace.simps TrimRightSpace.simps
  leading_space_def trailing_space_def white_space_utf8_def suffix_to_prefix

theorem listen_address_resolution_witness:
  "hostport (os_Getenv Map.empty) = '':4000''
   \<and> hostport (os_Getenv [''ADDRESS'' \<mapsto> [CHR 0x20, CHR 0x09, CHR 0xC2, CHR 0xA0]]) = '':4000''
   \<and> hostport (os_Getenv [''ADDRESS'' \<mapsto> '':4001'']) = '':4001''
   \<and> hostport (os_Getenv [''ADDRESS'' \<mapsto> '' localhost:8080 '']) = '' localhost:8080 ''"
proof -
  have a: "spec_only_whitespace [CHR 0x20, CHR 0x09, CHR 0xC2, CHR 0xA0]"
    unfolding spec_only_whitespace_def
    by (rule exI [of _ "[[CHR 0x20], [CHR 0x09], [CHR 0xC2, CHR 0xA0]]"])
       (simp add: white_space_utf8_def)
  have "TrimSpace '':4001'' \<noteq> []"
    by (simp add: trim_eval)
  then have b: "\<not> spec_only_whitespace '':4001''"
    by (simp add: TrimSpace_empty_iff)
  have "TrimSpace '' localhost:8080 '' \<noteq> []"
    by (simp add: trim_eval)
  then have c: "\<not> spec_only_whitespace '' localhost:8080 ''"
    by (simp add: TrimSpace_empty_iff)
  from listen_address_resolution [of "\<lambda>_. []" Map.empty]
  have 1: "hostport (os_Getenv Map.empty) = '':4000''" by simp
  from listen_address_resolution [of "\<lambda>_. []" "[''ADDRESS'' \<mapsto> [CHR 0x20, CHR 0x09, CHR 0xC2, CHR 0xA0]]"] a
  have 2: "hostport (os_Getenv [''ADDRESS'' \<mapsto> [CHR 0x20, CHR 0x09, CHR 0xC2, CHR 0xA0]]) = '':4000''"
    by simp
  from listen_address_resolution [of "\<lambda>_. []" "[''ADDRESS'' \<mapsto> '':4001'']"] b
  have 3: "hostport (os_Getenv [''ADDRESS'' \<mapsto> '':4001'']) = '':4001''"
    by simp
  from listen_address_resolution [of "\<lambda>_. []" "[''ADDRESS'' \<mapsto> '' localhost:8080 '']"] c
  have 4: "hostport (os_Getenv [''ADDRESS'' \<mapsto> '' localhost:8080 '']) = '' localhost:8080 ''"
    by simp
  from 1 2 3 4 show ?thesis by blast
qed

section \<open>The shutdown coordinator and the lifecycle\<close>

subsection \<open>Invariants of the transition system\<close>

lemma exec_coord_inv: "exec a s = Some s' \<Longrightarrow> coord_inv s \<Longrightarrow> coord_inv s'"
  by (cases a)
     (auto simp: coord_inv_def coord_step_def shutdown_returns_def serve_returns_def main_step_def
           split: coord_pc.splits run_pc.splits if_splits option.splits)

lemma execs_coord_inv: "execs as s0 = Some s \<Longrightarrow> coord_inv s0 \<Longrightarrow> coord_inv s"
  by (induction as arbitrary: s0) (auto split: option.splits dest: exec_coord_inv)

lemma started_coord_inv: "coordinator_started s \<Longrightarrow> coord_inv s"
  by (simp add: coordinator_started_def coord_inv_def)

lemma exec_run_inv: "exec a s = Some s' \<Longrightarrow> run_inv s \<Longrightarrow> run_inv s'"
  by (cases a)
     (auto simp: run_inv_def coord_step_def shutdown_returns_def serve_returns_def main_step_def
           split: coord_pc.splits run_pc.splits if_splits option.splits)

lemma execs_run_inv: "execs as s0 = Some s \<Longrightarrow> run_inv s0 \<Longrightarrow> run_inv s"
  by (induction as arbitrary: s0) (auto split: option.splits dest: exec_run_inv)

lemma started_run_inv: "run_started s \<Longrightarrow> run_inv s"
  by (simp add: run_started_def run_inv_def)

lemma exec_not_called_inv: "exec a s = Some s' \<Longrightarrow> not_called_inv s \<Longrightarrow> not_called_inv s'"
  by (cases a)
     (auto simp: not_called_inv_def coord_step_def shutdown_returns_def serve_returns_def main_step_def
           split: coord_pc.splits run_pc.splits if_splits option.splits)

lemma execs_not_called_inv: "execs as s0 = Some s \<Longrightarrow> not_called_inv s0 \<Longrightarrow> not_called_inv s"
  by (induction as arbitrary: s0) (auto split: option.splits dest: exec_not_called_inv)



text \<open>
  No step changes the server's configuration or the captured grace period, and
  keep-alives change only through the call logged as
  \<open>EvSetKeepAlivesEnabled False\<close>.
\<close>

lemma exec_srv: "exec a s = Some s' \<Longrightarrow> srv s' = srv s \<and> cl s' = cl s"
  by (cases a; cases "coord s")
     (auto simp: coord_step_def shutdown_returns_def serve_returns_def main_step_def
           split: run_pc.splits if_splits option.splits)

lemma execs_srv: "execs as s0 = Some s \<Longrightarrow> srv s = srv s0 \<and> cl s = cl s0"
proof (induction as arbitrary: s0)
  case Nil
  then show ?case by simp
next
  case (Cons a as)
  then obtain s1 where s1: "exec a s0 = Some s1" "execs as s1 = Some s"
    by (auto split: option.splits)
  from exec_srv [OF s1(1)] Cons.IH [OF s1(2)] show ?case
    by simp
qed

lemma exec_keepAlives:
  "exec a s = Some s' \<Longrightarrow>
   keepAlives s = (k0 \<and> EvSetKeepAlivesEnabled False \<notin> set (trace s)) \<Longrightarrow>
   keepAlives s' = (k0 \<and> EvSetKeepAlivesEnabled False \<notin> set (trace s'))"
  by (cases a; cases "coord s")
     (auto simp: coord_step_def shutdown_returns_def serve_returns_def main_step_def
           split: run_pc.splits if_splits option.splits)

lemma execs_keepAlives:
  "execs as s0 = Some s \<Longrightarrow>
   keepAlives s0 = (k0 \<and> EvSetKeepAlivesEnabled False \<notin> set (trace s0)) \<Longrightarrow>
   keepAlives s = (k0 \<and> EvSetKeepAlivesEnabled False \<notin> set (trace s))"
proof (induction as arbitrary: s0)
  case Nil
  then show ?case by simp
next
  case (Cons a as)
  then obtain s1 where s1: "exec a s0 = Some s1" "execs as s1 = Some s"
    by (auto split: option.splits)
  from exec_keepAlives [OF s1(1) Cons.prems(2)] Cons.IH [OF s1(2)] show ?case
    by simp
qed

lemma precedes_filter:
  "(\<And>x. p x \<Longrightarrow> c x) \<Longrightarrow> (\<And>x. q x \<Longrightarrow> c x) \<Longrightarrow> precedes p q (filter c xs) = precedes p q xs"
  by (induction xs) auto

lemma list_all_not_filter:
  "(\<And>x. q x \<Longrightarrow> c x) \<Longrightarrow> list_all (\<lambda>y. \<not> q y) (filter c xs) = list_all (\<lambda>y. \<not> q y) xs"
  by (induction xs) auto

lemma none_after_filter:
  "(\<And>x. p x \<Longrightarrow> c x) \<Longrightarrow> (\<And>x. q x \<Longrightarrow> c x) \<Longrightarrow> none_after p q (filter c xs) = none_after p q xs"
  by (induction xs) (auto simp: list_all_not_filter)

lemma filter_sub: "(\<And>x. p x \<Longrightarrow> c x) \<Longrightarrow> filter p (filter c xs) = filter p xs"
  by (induction xs) auto

lemma keepalive_off_coord: "is_keepalive_off x \<Longrightarrow> is_coord_event x" by (cases x) auto
lemma keepalive_call_coord: "is_keepalive_call x \<Longrightarrow> is_coord_event x" by (cases x) auto
lemma shutdown_call_coord: "is_shutdown_call x \<Longrightarrow> is_coord_event x" by (cases x) auto
lemma send_coord: "is_send x \<Longrightarrow> is_coord_event x" by (cases x) auto
lemma chan_write_coord: "is_chan_write x \<Longrightarrow> is_coord_event x" by (cases x) auto
lemma listener_call_coord: "is_listener_call x \<Longrightarrow> is_coord_event x" by (cases x) auto

subsection \<open>The claims\<close>

lemmas step_defs = coord_step_def shutdown_returns_def serve_returns_def main_step_def

text \<open>
  Claim C2. In every execution of the closure, under every schedule: a call of
  \<^verbatim>\<open>Shutdown\<close> has the call \<^verbatim>\<open>SetKeepAlivesEnabled(false)\<close> before it, and a send
  on the channel has the return of \<^verbatim>\<open>Shutdown\<close> before it. What the closure has
  done is at every moment an initial part of the one sequence of the source (no
  step left out, none out of order), and the whole of it once the closure has
  finished.
\<close>

theorem coordinator_steps_in_order:
  assumes "coordinator_started s0" and "execs as s0 = Some s"
  shows "precedes is_keepalive_off is_shutdown_call (trace s)
       \<and> precedes is_shutdown_call is_send (trace s)
       \<and> (\<exists>d r. prefix (filter is_coord_event (trace s)) (closure_script d r))
       \<and> (\<forall>d r. coord s = C_Done d r \<longrightarrow>
            filter is_coord_event (trace s) = closure_script d r)"
proof -
  from assms have inv: "coord_inv s"
    by (blast intro: execs_coord_inv started_coord_inv)
  then have log: "filter is_coord_event (trace s) = logged (coord s)"
    by (simp add: coord_inv_def)
  have "precedes is_keepalive_off is_shutdown_call (logged (coord s))"
    by (cases "coord s") (auto split: option.splits)
  then have 1: "precedes is_keepalive_off is_shutdown_call (trace s)"
    using precedes_filter [of is_keepalive_off is_coord_event is_shutdown_call "trace s"]
    by (simp add: log keepalive_off_coord shutdown_call_coord)
  have "precedes is_shutdown_call is_send (logged (coord s))"
    by (cases "coord s") (auto split: option.splits)
  then have 2: "precedes is_shutdown_call is_send (trace s)"
    using precedes_filter [of is_shutdown_call is_coord_event is_send "trace s"]
    by (simp add: log send_coord shutdown_call_coord)
  have "\<exists>d r. prefix (logged (coord s)) (closure_script d r)"
  proof (cases "coord s")
    case (C_Send d e)
    then have "prefix (logged (coord s)) (closure_script d (Some e))"
      by (simp add: closure_script_def)
    then show ?thesis by blast
  next
    case (C_Close d r)
    then have "prefix (logged (coord s)) (closure_script d r)"
      by (simp add: closure_script_def split: option.splits)
    then show ?thesis by blast
  next
    case (C_Done d r)
    then have "prefix (logged (coord s)) (closure_script d r)"
      by (simp add: closure_script_def split: option.splits)
    then show ?thesis by blast
  qed (simp_all add: closure_script_def)
  then have 3: "\<exists>d r. prefix (filter is_coord_event (trace s)) (closure_script d r)"
    by (simp only: log)
  from log have 4: "\<forall>d r. coord s = C_Done d r \<longrightarrow>
            filter is_coord_event (trace s) = closure_script d r"
    by (simp add: closure_script_def)
  from 1 2 3 4 show ?thesis by blast
qed

theorem coordinator_steps_in_order_witness:
  "coordinator_started (TestShutdown_init 0)
   \<and> (\<exists>s. execs [Cancel, Coord, Tick 5, Coord, Coord, ShutdownReturns (Some ErrServerClosed), Coord, Coord]
              (TestShutdown_init 0) = Some s
        \<and> trace s = [EvWithTimeout 1000000005, EvSetKeepAlivesEnabled False,
                      EvShutdown 1000000005 (Some ErrServerClosed),
                      EvSend ErrServerClosed, EvRecv (Some ErrServerClosed), EvClose]
        \<and> coord s = C_Done 1000000005 (Some ErrServerClosed)
        \<and> precedes is_keepalive_off is_shutdown_call (trace s)
        \<and> precedes is_shutdown_call is_send (trace s)
        \<and> filter is_coord_event (trace s)
            = [EvWithTimeout 1000000005, EvSetKeepAlivesEnabled False,
               EvShutdown 1000000005 (Some ErrServerClosed), EvSend ErrServerClosed, EvClose])"
proof -
  have st: "coordinator_started (TestShutdown_init 0)"
    by (simp add: coordinator_started_def TestShutdown_init_def)
  obtain s where ex:
    "execs [Cancel, Coord, Tick 5, Coord, Coord, ShutdownReturns (Some ErrServerClosed), Coord, Coord]
       (TestShutdown_init 0) = Some s"
    and tr: "trace s = [EvWithTimeout 1000000005, EvSetKeepAlivesEnabled False,
                      EvShutdown 1000000005 (Some ErrServerClosed),
                      EvSend ErrServerClosed, EvRecv (Some ErrServerClosed), EvClose]"
    and pc: "coord s = C_Done 1000000005 (Some ErrServerClosed)"
    by (simp add: TestShutdown_init_def step_defs shutdown_def Second_def)
  from coordinator_steps_in_order [OF st ex] pc
  have "precedes is_keepalive_off is_shutdown_call (trace s)
        \<and> precedes is_shutdown_call is_send (trace s)
        \<and> filter is_coord_event (trace s)
            = [EvWithTimeout 1000000005, EvSetKeepAlivesEnabled False,
               EvShutdown 1000000005 (Some ErrServerClosed), EvSend ErrServerClosed, EvClose]"
    by (simp add: closure_script_def)
  with st ex tr pc show ?thesis by blast
qed

text \<open>
  Claim C3. Under every schedule and for every result of \<^verbatim>\<open>Shutdown\<close>: the closure
  sends at most once, nothing is sent or closed after the channel is closed, and the
  closure never panics; when it has finished, the channel is closed and what it
  wrote to the channel is the error \<^verbatim>\<open>Shutdown\<close> returned, if one, then the close.
  The close is not guarded: at line 49 it is always enabled. The send of line 47 is
  a rendezvous, enabled whenever the reader waits.
\<close>

theorem coordinator_sends_at_most_once_then_closes:
  assumes "coordinator_started s0" and "execs as s0 = Some s"
  shows "length (filter is_send (trace s)) \<le> 1
       \<and> none_after (\<lambda>e. e = EvClose) is_chan_write (trace s)
       \<and> coord s \<noteq> C_Panic
       \<and> (\<forall>d r. coord s = C_Done d r \<longrightarrow>
            chan_closed s \<and> EvShutdown d r \<in> set (trace s)
            \<and> filter is_chan_write (trace s)
                = (case r of None \<Rightarrow> [] | Some e \<Rightarrow> [EvSend e]) @ [EvClose])
       \<and> (\<forall>d r. coord s = C_Close d r \<longrightarrow>
            (\<exists>s'. exec Coord s = Some s' \<and> coord s' = C_Done d r \<and> chan_closed s'))
       \<and> (\<forall>d e. coord s = C_Send d e \<and> main s = R_Recv \<longrightarrow>
            (\<exists>s'. exec Coord s = Some s' \<and> coord s' = C_Close d (Some e)))"
proof -
  from assms have inv: "coord_inv s"
    by (blast intro: execs_coord_inv started_coord_inv)
  then have log: "filter is_coord_event (trace s) = logged (coord s)"
    and closed: "chan_closed s = is_done (coord s)"
    and nopanic: "coord s \<noteq> C_Panic"
    by (simp_all add: coord_inv_def)
  have "length (filter is_send (logged (coord s))) \<le> 1"
    by (cases "coord s") (auto split: option.splits)
  then have 1: "length (filter is_send (trace s)) \<le> 1"
    using filter_sub [of is_send is_coord_event "trace s"]
    by (simp add: log send_coord)
  have "none_after (\<lambda>e. e = EvClose) is_chan_write (logged (coord s))"
    by (cases "coord s") (auto split: option.splits)
  then have 2: "none_after (\<lambda>e. e = EvClose) is_chan_write (trace s)"
    using none_after_filter [of "\<lambda>e. e = EvClose" is_coord_event is_chan_write "trace s"]
    by (simp add: log chan_write_coord)
  have 4: "chan_closed s \<and> EvShutdown d r \<in> set (trace s)
            \<and> filter is_chan_write (trace s)
                = (case r of None \<Rightarrow> [] | Some e \<Rightarrow> [EvSend e]) @ [EvClose]"
    if pc: "coord s = C_Done d r" for d r
  proof -
    have "EvShutdown d r \<in> set (filter is_coord_event (trace s))"
      by (simp add: log pc)
    then have a: "EvShutdown d r \<in> set (trace s)" by simp
    have "filter is_chan_write (filter is_coord_event (trace s))
            = (case r of None \<Rightarrow> [] | Some e \<Rightarrow> [EvSend e]) @ [EvClose]"
      by (simp add: log pc split: option.splits)
    then have b: "filter is_chan_write (trace s)
            = (case r of None \<Rightarrow> [] | Some e \<Rightarrow> [EvSend e]) @ [EvClose]"
      using filter_sub [of is_chan_write is_coord_event "trace s"]
      by (simp add: chan_write_coord)
    from a b closed pc show ?thesis by simp
  qed
  have 5: "\<exists>s'. exec Coord s = Some s' \<and> coord s' = C_Done d r \<and> chan_closed s'"
    if pc: "coord s = C_Close d r" for d r
    using closed pc by (simp add: coord_step_def)
  have 6: "\<exists>s'. exec Coord s = Some s' \<and> coord s' = C_Close d (Some e)"
    if pc: "coord s = C_Send d e \<and> main s = R_Recv" for d e
    using closed pc by (simp add: coord_step_def)
  from 1 2 nopanic 4 5 6 show ?thesis by blast
qed

theorem coordinator_sends_at_most_once_then_closes_witness:
  "coordinator_started (TestShutdown_init 0)
   \<and> (\<exists>s. execs [Cancel, Coord, Coord, Coord, ShutdownReturns None, Coord, Main]
              (TestShutdown_init 0) = Some s
        \<and> trace s = [EvWithTimeout 1000000000, EvSetKeepAlivesEnabled False,
                      EvShutdown 1000000000 None, EvClose, EvRecv None]
        \<and> coord s = C_Done 1000000000 None
        \<and> main s = R_Returned None
        \<and> length (filter is_send (trace s)) \<le> 1
        \<and> none_after (\<lambda>e. e = EvClose) is_chan_write (trace s)
        \<and> chan_closed s
        \<and> filter is_chan_write (trace s) = [EvClose])
   \<and> (\<exists>s s'. execs [Cancel, Coord, Coord, Coord, ShutdownReturns (Some (ErrOther ''context deadline exceeded''))]
              (TestShutdown_init 0) = Some s
        \<and> coord s = C_Send 1000000000 (ErrOther ''context deadline exceeded'')
        \<and> exec Coord s = Some s'
        \<and> coord s' = C_Close 1000000000 (Some (ErrOther ''context deadline exceeded'')))"
proof -
  have st: "coordinator_started (TestShutdown_init 0)"
    by (simp add: coordinator_started_def TestShutdown_init_def)
  obtain s where ex:
    "execs [Cancel, Coord, Coord, Coord, ShutdownReturns None, Coord, Main]
       (TestShutdown_init 0) = Some s"
    and tr: "trace s = [EvWithTimeout 1000000000, EvSetKeepAlivesEnabled False,
                      EvShutdown 1000000000 None, EvClose, EvRecv None]"
    and pc: "coord s = C_Done 1000000000 None" "main s = R_Returned None"
    by (simp add: TestShutdown_init_def step_defs shutdown_def Second_def)
  from coordinator_sends_at_most_once_then_closes [OF st ex] pc
  have a: "length (filter is_send (trace s)) \<le> 1
        \<and> none_after (\<lambda>e. e = EvClose) is_chan_write (trace s)
        \<and> chan_closed s
        \<and> filter is_chan_write (trace s) = [EvClose]"
    by simp
  obtain t where ex2:
    "execs [Cancel, Coord, Coord, Coord, ShutdownReturns (Some (ErrOther ''context deadline exceeded''))]
       (TestShutdown_init 0) = Some t"
    and pc2: "coord t = C_Send 1000000000 (ErrOther ''context deadline exceeded'')"
      "main t = R_Recv"
    by (simp add: TestShutdown_init_def step_defs shutdown_def Second_def)
  from coordinator_sends_at_most_once_then_closes [OF st ex2] pc2
  have b: "\<exists>s'. exec Coord t = Some s'
        \<and> coord s' = C_Close 1000000000 (Some (ErrOther ''context deadline exceeded''))"
    by simp
  from st ex tr pc a ex2 pc2 b show ?thesis by blast
qed

text \<open>
  Claim C9. Under every schedule, the closure's calls on the listener are at most
  one \<^verbatim>\<open>SetKeepAlivesEnabled\<close>, never with \<^verbatim>\<open>true\<close>, and at most one
  \<^verbatim>\<open>Shutdown\<close>, in this order. The server's configuration is never changed, and
  keep-alives are enabled exactly as long as they were at the start and the call
  has not been made: they are never enabled again. A closure that has finished has
  made exactly the two calls, whatever \<^verbatim>\<open>Shutdown\<close> returned.
\<close>

theorem coordinator_listener_calls:
  assumes "coordinator_started s0" and "execs as s0 = Some s"
  shows "EvSetKeepAlivesEnabled True \<notin> set (trace s)
       \<and> length (filter is_keepalive_call (trace s)) \<le> 1
       \<and> length (filter is_shutdown_call (trace s)) \<le> 1
       \<and> precedes is_keepalive_call is_shutdown_call (trace s)
       \<and> srv s = srv s0
       \<and> keepAlives s = (keepAlives s0 \<and> EvSetKeepAlivesEnabled False \<notin> set (trace s))
       \<and> (\<forall>d r. coord s = C_Done d r \<longrightarrow>
            filter is_listener_call (trace s)
              = [EvSetKeepAlivesEnabled False, EvShutdown d r])"
proof -
  from assms have inv: "coord_inv s"
    by (blast intro: execs_coord_inv started_coord_inv)
  then have log: "filter is_coord_event (trace s) = logged (coord s)"
    by (simp add: coord_inv_def)
  have "EvSetKeepAlivesEnabled True \<notin> set (filter is_coord_event (trace s))"
    unfolding log by (cases "coord s") (auto split: option.splits)
  then have 1: "EvSetKeepAlivesEnabled True \<notin> set (trace s)" by simp
  have "length (filter is_keepalive_call (logged (coord s))) \<le> 1"
    by (cases "coord s") (auto split: option.splits)
  then have 2: "length (filter is_keepalive_call (trace s)) \<le> 1"
    using filter_sub [of is_keepalive_call is_coord_event "trace s"]
    by (simp add: log keepalive_call_coord)
  have "length (filter is_shutdown_call (logged (coord s))) \<le> 1"
    by (cases "coord s") (auto split: option.splits)
  then have 3: "length (filter is_shutdown_call (trace s)) \<le> 1"
    using filter_sub [of is_shutdown_call is_coord_event "trace s"]
    by (simp add: log shutdown_call_coord)
  have "precedes is_keepalive_call is_shutdown_call (logged (coord s))"
    by (cases "coord s") (auto split: option.splits)
  then have 4: "precedes is_keepalive_call is_shutdown_call (trace s)"
    using precedes_filter [of is_keepalive_call is_coord_event is_shutdown_call "trace s"]
    by (simp add: log keepalive_call_coord shutdown_call_coord)
  from assms(2) have 5: "srv s = srv s0"
    by (simp add: execs_srv)
  from assms(1) have "keepAlives s0
      = (keepAlives s0 \<and> EvSetKeepAlivesEnabled False \<notin> set (trace s0))"
    by (simp add: coordinator_started_def)
  with assms(2) have 6: "keepAlives s
      = (keepAlives s0 \<and> EvSetKeepAlivesEnabled False \<notin> set (trace s))"
    by (rule execs_keepAlives)
  have 7: "filter is_listener_call (trace s) = [EvSetKeepAlivesEnabled False, EvShutdown d r]"
    if pc: "coord s = C_Done d r" for d r
  proof -
    have "filter is_listener_call (filter is_coord_event (trace s))
            = [EvSetKeepAlivesEnabled False, EvShutdown d r]"
      by (simp add: log pc split: option.splits)
    then show ?thesis
      using filter_sub [of is_listener_call is_coord_event "trace s"]
      by (simp add: listener_call_coord)
  qed
  from 1 2 3 4 5 6 7 show ?thesis by blast
qed

theorem coordinator_listener_calls_witness:
  "coordinator_started (TestShutdown_init 7)
   \<and> (\<exists>s. execs [Tick 2, Cancel, Cancel, Coord, Coord, Tick 1, Coord,
                  ShutdownReturns (Some (ErrOther ''context deadline exceeded'')), Coord, Coord]
              (TestShutdown_init 7) = Some s
        \<and> coord s = C_Done 1000000009 (Some (ErrOther ''context deadline exceeded''))
        \<and> EvSetKeepAlivesEnabled True \<notin> set (trace s)
        \<and> length (filter is_keepalive_call (trace s)) \<le> 1
        \<and> length (filter is_shutdown_call (trace s)) \<le> 1
        \<and> precedes is_keepalive_call is_shutdown_call (trace s)
        \<and> EvSetKeepAlivesEnabled False \<in> set (trace s)
        \<and> srv s = srv (TestShutdown_init 7)
        \<and> keepAlives (TestShutdown_init 7) \<and> \<not> keepAlives s
        \<and> filter is_listener_call (trace s)
            = [EvSetKeepAlivesEnabled False,
               EvShutdown 1000000009 (Some (ErrOther ''context deadline exceeded''))])"
proof -
  have st: "coordinator_started (TestShutdown_init 7)"
    by (simp add: coordinator_started_def TestShutdown_init_def)
  obtain s where ex:
    "execs [Tick 2, Cancel, Cancel, Coord, Coord, Tick 1, Coord,
            ShutdownReturns (Some (ErrOther ''context deadline exceeded'')), Coord, Coord]
       (TestShutdown_init 7) = Some s"
    and pc: "coord s = C_Done 1000000009 (Some (ErrOther ''context deadline exceeded''))"
    and mem: "EvSetKeepAlivesEnabled False \<in> set (trace s)"
    by (simp add: TestShutdown_init_def step_defs shutdown_def Second_def)
  from coordinator_listener_calls [OF st ex] pc mem
  have "EvSetKeepAlivesEnabled True \<notin> set (trace s)
        \<and> length (filter is_keepalive_call (trace s)) \<le> 1
        \<and> length (filter is_shutdown_call (trace s)) \<le> 1
        \<and> precedes is_keepalive_call is_shutdown_call (trace s)
        \<and> srv s = srv (TestShutdown_init 7)
        \<and> \<not> keepAlives s
        \<and> filter is_listener_call (trace s)
            = [EvSetKeepAlivesEnabled False,
               EvShutdown 1000000009 (Some (ErrOther ''context deadline exceeded''))]"
    by simp
  moreover have "keepAlives (TestShutdown_init 7)"
    by (simp add: TestShutdown_init_def)
  ultimately show ?thesis using st ex pc mem by blast
qed

lemma run_inv_reach:
  "run_started s0 \<Longrightarrow> execs as s0 = Some s \<Longrightarrow> run_inv_at (main s) (filter is_run_event (trace s))"
  using execs_run_inv [of as s0 s] started_run_inv [of s0] by (simp add: run_inv_def)

text \<open>
  Claim C5. When \<^verbatim>\<open>ListenAndServe\<close> has returned an error in which \<^verbatim>\<open>errors.Is\<close>
  does not find the sentinel, \<^verbatim>\<open>run\<close> has returned that error and the channel was
  never read; the return is the very step in which \<^verbatim>\<open>ListenAndServe\<close> returns.
  This holds under every schedule, whether or not the closure runs.
\<close>

theorem run_returns_serve_error_at_once:
  assumes "run_started s0" and "execs as s0 = Some s"
    and "\<not> errors_Is err ErrServerClosed"
  shows "(EvServe err \<in> set (trace s) \<longrightarrow>
            main s = R_Returned err \<and> (\<forall>v. EvRecv v \<notin> set (trace s)))
       \<and> (main s = R_Serve \<longrightarrow>
            (\<exists>s'. exec (ServeReturns err) s = Some s' \<and> main s' = R_Returned err
                  \<and> trace s' = trace s @ [EvServe err]))"
proof -
  define rs where "rs = filter is_run_event (trace s)"
  from assms(1,2) have inv: "run_inv_at (main s) rs"
    unfolding rs_def by (rule run_inv_reach)
  have recv: "EvRecv v \<in> set (trace s) \<longleftrightarrow> EvRecv v \<in> set rs" for v
    by (simp add: rs_def)
  have serve: "EvServe e \<in> set (trace s) \<longleftrightarrow> EvServe e \<in> set rs" for e
    by (simp add: rs_def)
  from assms(3) inv
  have 1: "EvServe err \<in> set (trace s) \<longrightarrow>
            main s = R_Returned err \<and> (\<forall>v. EvRecv v \<notin> set (trace s))"
    unfolding recv serve by (cases "main s") auto
  from assms(3)
  have 2: "main s = R_Serve \<longrightarrow>
            (\<exists>s'. exec (ServeReturns err) s = Some s' \<and> main s' = R_Returned err
                  \<and> trace s' = trace s @ [EvServe err])"
    by (simp add: serve_returns_def)
  from 1 2 show ?thesis by blast
qed

theorem run_returns_serve_error_at_once_witness:
  "run_started (run_init 0 (os_Getenv Map.empty))
   \<and> \<not> errors_Is (Some (ErrOther ''listen tcp :4000: bind: address already in use'')) ErrServerClosed
   \<and> main (run_init 0 (os_Getenv Map.empty)) = R_Serve
   \<and> (\<exists>s. execs [ServeReturns (Some (ErrOther ''listen tcp :4000: bind: address already in use''))]
              (run_init 0 (os_Getenv Map.empty)) = Some s
        \<and> EvServe (Some (ErrOther ''listen tcp :4000: bind: address already in use'')) \<in> set (trace s)
        \<and> main s = R_Returned (Some (ErrOther ''listen tcp :4000: bind: address already in use''))
        \<and> (\<forall>v. EvRecv v \<notin> set (trace s)))
   \<and> (\<exists>s'. exec (ServeReturns (Some (ErrOther ''listen tcp :4000: bind: address already in use'')))
               (run_init 0 (os_Getenv Map.empty)) = Some s'
        \<and> main s' = R_Returned (Some (ErrOther ''listen tcp :4000: bind: address already in use''))
        \<and> trace s' = [EvServe (Some (ErrOther ''listen tcp :4000: bind: address already in use''))])"
proof -
  have st: "run_started (run_init 0 (os_Getenv Map.empty))"
    by (simp add: run_started_def run_init_def)
  have ne: "\<not> errors_Is (Some (ErrOther ''listen tcp :4000: bind: address already in use'')) ErrServerClosed"
    by simp
  have m0: "main (run_init 0 (os_Getenv Map.empty)) = R_Serve"
    and t0: "trace (run_init 0 (os_Getenv Map.empty)) = []"
    by (simp_all add: run_init_def)
  obtain s where ex:
    "execs [ServeReturns (Some (ErrOther ''listen tcp :4000: bind: address already in use''))]
       (run_init 0 (os_Getenv Map.empty)) = Some s"
    and mem: "EvServe (Some (ErrOther ''listen tcp :4000: bind: address already in use'')) \<in> set (trace s)"
    by (simp add: run_init_def step_defs)
  have ex0: "execs [] (run_init 0 (os_Getenv Map.empty)) = Some (run_init 0 (os_Getenv Map.empty))"
    by simp
  from run_returns_serve_error_at_once [OF st ex ne] mem
  have a: "main s = R_Returned (Some (ErrOther ''listen tcp :4000: bind: address already in use''))
      \<and> (\<forall>v. EvRecv v \<notin> set (trace s))"
    by blast
  from run_returns_serve_error_at_once [OF st ex0 ne] m0 t0
  have b: "\<exists>s'. exec (ServeReturns (Some (ErrOther ''listen tcp :4000: bind: address already in use'')))
               (run_init 0 (os_Getenv Map.empty)) = Some s'
        \<and> main s' = R_Returned (Some (ErrOther ''listen tcp :4000: bind: address already in use''))
        \<and> trace s' = [EvServe (Some (ErrOther ''listen tcp :4000: bind: address already in use''))]"
    by simp
  from st ne m0 ex mem a b show ?thesis by blast
qed

text \<open>
  Claim C8. \<^verbatim>\<open>run\<close> waits on the channel, or has read it, exactly when
  \<^verbatim>\<open>ListenAndServe\<close> returned the sentinel; when it returned nil, \<^verbatim>\<open>run\<close> has
  returned nil, in that very step, and the channel was never read.
\<close>

theorem run_reads_channel_iff_sentinel:
  assumes "run_started s0" and "execs as s0 = Some s"
  shows "((main s = R_Recv \<or> (\<exists>v. EvRecv v \<in> set (trace s)))
            \<longleftrightarrow> (\<exists>err. EvServe err \<in> set (trace s) \<and> errors_Is err ErrServerClosed))
       \<and> (EvServe None \<in> set (trace s) \<longrightarrow>
            main s = R_Returned None \<and> (\<forall>v. EvRecv v \<notin> set (trace s)))
       \<and> (main s = R_Serve \<longrightarrow>
            (\<exists>s'. exec (ServeReturns None) s = Some s' \<and> main s' = R_Returned None
                  \<and> trace s' = trace s @ [EvServe None]))"
proof -
  define rs where "rs = filter is_run_event (trace s)"
  from assms(1,2) have inv: "run_inv_at (main s) rs"
    unfolding rs_def by (rule run_inv_reach)
  have recv: "EvRecv v \<in> set (trace s) \<longleftrightarrow> EvRecv v \<in> set rs" for v
    by (simp add: rs_def)
  have serve: "EvServe e \<in> set (trace s) \<longleftrightarrow> EvServe e \<in> set rs" for e
    by (simp add: rs_def)
  from inv
  have 1: "((main s = R_Recv \<or> (\<exists>v. EvRecv v \<in> set (trace s)))
            \<longleftrightarrow> (\<exists>err. EvServe err \<in> set (trace s) \<and> errors_Is err ErrServerClosed))
       \<and> (EvServe None \<in> set (trace s) \<longrightarrow>
            main s = R_Returned None \<and> (\<forall>v. EvRecv v \<notin> set (trace s)))"
    unfolding recv serve by (cases "main s") auto
  have 2: "main s = R_Serve \<longrightarrow>
            (\<exists>s'. exec (ServeReturns None) s = Some s' \<and> main s' = R_Returned None
                  \<and> trace s' = trace s @ [EvServe None])"
    by (simp add: serve_returns_def)
  from 1 2 show ?thesis by blast
qed

theorem run_reads_channel_iff_sentinel_witness:
  "run_started (run_init 0 (os_Getenv Map.empty))
   \<and> main (run_init 0 (os_Getenv Map.empty)) = R_Serve
   \<and> (\<exists>s'. exec (ServeReturns None) (run_init 0 (os_Getenv Map.empty)) = Some s'
        \<and> main s' = R_Returned None \<and> trace s' = [EvServe None])
   \<and> (\<exists>s. execs [ServeReturns None] (run_init 0 (os_Getenv Map.empty)) = Some s
        \<and> EvServe None \<in> set (trace s)
        \<and> main s = R_Returned None
        \<and> (\<forall>v. EvRecv v \<notin> set (trace s)))
   \<and> (\<exists>s. execs [Cancel, ServeReturns (Some ErrServerClosed)]
              (run_init 0 (os_Getenv Map.empty)) = Some s
        \<and> EvServe (Some ErrServerClosed) \<in> set (trace s)
        \<and> errors_Is (Some ErrServerClosed) ErrServerClosed
        \<and> (main s = R_Recv \<or> (\<exists>v. EvRecv v \<in> set (trace s))))"
proof -
  have st: "run_started (run_init 0 (os_Getenv Map.empty))"
    by (simp add: run_started_def run_init_def)
  have m0: "main (run_init 0 (os_Getenv Map.empty)) = R_Serve"
    and t0: "trace (run_init 0 (os_Getenv Map.empty)) = []"
    by (simp_all add: run_init_def)
  have ex0: "execs [] (run_init 0 (os_Getenv Map.empty)) = Some (run_init 0 (os_Getenv Map.empty))"
    by simp
  from run_reads_channel_iff_sentinel [OF st ex0] m0 t0
  have c: "\<exists>s'. exec (ServeReturns None) (run_init 0 (os_Getenv Map.empty)) = Some s'
        \<and> main s' = R_Returned None \<and> trace s' = [EvServe None]"
    by simp
  obtain s where ex: "execs [ServeReturns None] (run_init 0 (os_Getenv Map.empty)) = Some s"
    and mem: "EvServe None \<in> set (trace s)"
    by (simp add: run_init_def step_defs)
  from run_reads_channel_iff_sentinel [OF st ex] mem
  have a: "main s = R_Returned None \<and> (\<forall>v. EvRecv v \<notin> set (trace s))"
    by blast
  obtain t where ex2: "execs [Cancel, ServeReturns (Some ErrServerClosed)]
              (run_init 0 (os_Getenv Map.empty)) = Some t"
    and mem2: "EvServe (Some ErrServerClosed) \<in> set (trace t)"
    by (simp add: run_init_def step_defs)
  have sen: "errors_Is (Some ErrServerClosed) ErrServerClosed" by simp
  from run_reads_channel_iff_sentinel [OF st ex2] mem2 sen
  have b: "main t = R_Recv \<or> (\<exists>v. EvRecv v \<in> set (trace t))"
    by blast
  from st m0 c ex mem a ex2 mem2 sen b show ?thesis by blast
qed




text \<open>
  Line 104 as written. From the state \<^verbatim>\<open>run\<close> sets up, under every schedule, the
  closure never runs: it logs nothing, \<^verbatim>\<open>Shutdown\<close> is never called, the channel is
  never closed and nothing is ever received from it; a \<^verbatim>\<open>run\<close> that got the
  sentinel from \<^verbatim>\<open>ListenAndServe\<close> would wait at line 111 with no task able to
  take a step.
\<close>

lemma closure_never_called_in_run:
  assumes "execs as (run_init t0 getenv) = Some s"
  shows "coord s = C_NotCalled \<and> \<not> chan_closed s
       \<and> filter is_coord_event (trace s) = []
       \<and> (\<forall>d r. EvShutdown d r \<notin> set (trace s))
       \<and> (\<forall>v. EvRecv v \<notin> set (trace s))
       \<and> (\<forall>err. EvServe err \<in> set (trace s) \<and> errors_Is err ErrServerClosed \<longrightarrow>
             main s = R_Recv \<and> exec Main s = None \<and> exec Coord s = None)"
proof -
  have "not_called_inv (run_init t0 getenv)"
    by (simp add: not_called_inv_def run_init_def)
  with assms have nc: "not_called_inv s"
    by (blast intro: execs_not_called_inv)
  have "run_started (run_init t0 getenv)"
    by (simp add: run_started_def run_init_def)
  define rs where "rs = filter is_run_event (trace s)"
  from \<open>run_started (run_init t0 getenv)\<close> assms have inv: "run_inv_at (main s) rs"
    unfolding rs_def by (rule run_inv_reach)
  have serve: "EvServe e \<in> set (trace s) \<longleftrightarrow> EvServe e \<in> set rs" for e
    by (simp add: rs_def)
  from nc have a: "coord s = C_NotCalled" and b: "\<not> chan_closed s"
    and c: "filter is_coord_event (trace s) = []" and d: "filter is_recv (trace s) = []"
    by (simp_all add: not_called_inv_def)
  have e: "EvRecv v \<notin> set (trace s)" for v
  proof
    assume "EvRecv v \<in> set (trace s)"
    then have "EvRecv v \<in> set (filter is_recv (trace s))" by simp
    with d show False by simp
  qed
  have g: "EvShutdown d r \<notin> set (trace s)" for d r
  proof
    assume "EvShutdown d r \<in> set (trace s)"
    then have "EvShutdown d r \<in> set (filter is_coord_event (trace s))" by simp
    with c show False by simp
  qed
  have f: "main s = R_Recv \<and> exec Main s = None \<and> exec Coord s = None"
    if "EvServe err \<in> set (trace s) \<and> errors_Is err ErrServerClosed" for err
  proof -
    from that have mem: "EvServe err \<in> set rs" and sen: "errors_Is err ErrServerClosed"
      by (simp_all add: serve)
    have norecv: "\<forall>v. EvRecv v \<notin> set rs"
      using e by (simp add: rs_def)
    from inv mem sen norecv have "main s = R_Recv"
      by (cases "main s") auto
    with a b show ?thesis
      by (simp add: main_step_def coord_step_def)
  qed
  from a b c e f g show ?thesis by blast
qed

text \<open>
  Claim C1, on the code as written. The grace period \<^verbatim>\<open>run\<close> hands to
  \<^verbatim>\<open>shutdown\<close> is the literal of line 104, thirty seconds, and not the constant
  \<^verbatim>\<open>gracePeriod\<close> of line 74, twenty-nine seconds; the deadline a closure with this
  grace period constructs at line 40 is thirty seconds from the current moment.
\<close>

theorem run_passes_thirty_seconds:
  "cl_gracePeriod (cl (run_init t0 getenv)) = 30 * Second
   \<and> gracePeriod = 29 * Second
   \<and> cl_gracePeriod (cl (run_init t0 getenv)) \<noteq> gracePeriod
   \<and> (\<forall>s. cl s = cl (run_init t0 getenv) \<and> coord s = C_WithTimeout \<longrightarrow>
         exec Coord s
           = Some (s\<lparr>coord := C_SetKeepAlives (now s + 30 * Second),
                     trace := trace s @ [EvWithTimeout (now s + 30 * Second)]\<rparr>))"
  by (simp add: run_init_def shutdown_def gracePeriod_def Second_def coord_step_def)

theorem run_passes_thirty_seconds_witness:
  "cl_gracePeriod (cl (run_init 0 (os_Getenv Map.empty))) = 30000000000
   \<and> gracePeriod = 29000000000
   \<and> exec Coord ((run_init 0 (os_Getenv Map.empty))\<lparr>ctx_done := True, coord := C_WithTimeout\<rparr>)
       = Some ((run_init 0 (os_Getenv Map.empty))
                 \<lparr>ctx_done := True, coord := C_SetKeepAlives 30000000000,
                  trace := [EvWithTimeout 30000000000]\<rparr>)"
proof -
  have c: "cl ((run_init 0 (os_Getenv Map.empty))\<lparr>ctx_done := True, coord := C_WithTimeout\<rparr>)
             = cl (run_init 0 (os_Getenv Map.empty))
         \<and> coord ((run_init 0 (os_Getenv Map.empty))\<lparr>ctx_done := True, coord := C_WithTimeout\<rparr>)
             = C_WithTimeout"
    by simp
  have n: "now (run_init 0 (os_Getenv Map.empty)) = 0"
    and t: "trace (run_init 0 (os_Getenv Map.empty)) = []"
    by (simp_all add: run_init_def)
  from run_passes_thirty_seconds [of 0 "os_Getenv Map.empty"] c
  have "cl_gracePeriod (cl (run_init 0 (os_Getenv Map.empty))) = 30 * Second
      \<and> gracePeriod = 29 * Second
      \<and> exec Coord ((run_init 0 (os_Getenv Map.empty))\<lparr>ctx_done := True, coord := C_WithTimeout\<rparr>)
       = Some ((run_init 0 (os_Getenv Map.empty))
                 \<lparr>ctx_done := True, coord := C_WithTimeout,
                  coord := C_SetKeepAlives
                    (now ((run_init 0 (os_Getenv Map.empty))\<lparr>ctx_done := True, coord := C_WithTimeout\<rparr>)
                      + 30 * Second),
                  trace := trace ((run_init 0 (os_Getenv Map.empty))\<lparr>ctx_done := True, coord := C_WithTimeout\<rparr>)
                    @ [EvWithTimeout
                        (now ((run_init 0 (os_Getenv Map.empty))\<lparr>ctx_done := True, coord := C_WithTimeout\<rparr>)
                          + 30 * Second)]\<rparr>)"
    by blast
  then show ?thesis
    by (simp add: Second_def n t)
qed

end
